theory Spec2Isabelle
  imports Main
begin

unbundle bit_operations_syntax

section \<open>Python values used by the driver\<close>

text \<open>
  The driver \<^verbatim>\<open>ssd1315.py\<close> works on Python integers (unbounded, modelled as \<open>int\<close>)
  and Python lists.  The three list operations it uses are written out here with the
  behaviour Python gives them: repetition \<^verbatim>\<open>[v] * n\<close> (empty for \<open>n \<le> 0\<close>), indexing
  (negative indices count from the end, anything else out of range raises
  \<^verbatim>\<open>IndexError\<close>) and slicing \<^verbatim>\<open>xs[i:j]\<close> (clipped to the list).
\<close>

text \<open>
  The exceptions of the model: \<^verbatim>\<open>IndexError\<close> of a list access out of range, an
  exception raised by the code of a caller, and \<^verbatim>\<open>ConfigurationError\<close>, the error
  the specification names for a bad geometry; the driver has no statement that raises
  the last one.
\<close>

datatype error = IndexError | ConfigurationError | CallerError string

definition py_repeat :: "'a \<Rightarrow> int \<Rightarrow> 'a list" where
  "py_repeat v n = replicate (nat n) v"

definition py_index :: "'a list \<Rightarrow> int \<Rightarrow> error + nat" where
  "py_index xs i =
     (if 0 \<le> i \<and> i < int (length xs) then Inr (nat i)
      else if i < 0 \<and> - int (length xs) \<le> i then Inr (nat (int (length xs) + i))
      else Inl IndexError)"

definition py_slice :: "'a list \<Rightarrow> nat \<Rightarrow> nat \<Rightarrow> 'a list" where
  "py_slice xs i j = take (j - i) (drop i xs)"

text \<open>\<^verbatim>\<open>range(n)\<close> and \<^verbatim>\<open>range(start, stop, step)\<close> with a positive step.\<close>

definition py_range :: "int \<Rightarrow> int list" where
  "py_range n = map int [0 ..< nat n]"

function py_range3 :: "nat \<Rightarrow> nat \<Rightarrow> nat \<Rightarrow> nat list" where
  "py_range3 start stop step =
     (if step = 0 \<or> stop \<le> start then []
      else start # py_range3 (start + step) stop step)"
  by pat_completeness auto
termination
  by (relation "measure (\<lambda>(start, stop, step). stop - start)") auto

section \<open>The bus transport\<close>

text \<open>
  \<^verbatim>\<open>smbus2.SMBus\<close> is an external collaborator.  It is modelled by what the driver asks
  of it: the handle remembers the bus number it was opened on, whether it is still
  open, and the writes it was given, oldest first.  A write is
  \<^verbatim>\<open>write_byte_data(address, register, value)\<close> or
  \<^verbatim>\<open>write_i2c_block_data(address, register, data)\<close>.  The transport of the model
  accepts every write; failures of the physical bus are outside the model.
\<close>

datatype bus_write =
    WriteByte int int int
  | WriteBlock int int "int list"

record smbus =
  bus_id :: int
  is_open :: bool
  writes :: "bus_write list"

definition SMBus :: "int \<Rightarrow> smbus" where
  "SMBus n = \<lparr>bus_id = n, is_open = True, writes = []\<rparr>"

definition write_byte_data :: "smbus \<Rightarrow> int \<Rightarrow> int \<Rightarrow> int \<Rightarrow> smbus" where
  "write_byte_data b addr reg v = b\<lparr>writes := writes b @ [WriteByte addr reg v]\<rparr>"

definition write_i2c_block_data :: "smbus \<Rightarrow> int \<Rightarrow> int \<Rightarrow> int list \<Rightarrow> smbus" where
  "write_i2c_block_data b addr reg vs = b\<lparr>writes := writes b @ [WriteBlock addr reg vs]\<rparr>"

definition bus_close :: "smbus \<Rightarrow> smbus" where
  "bus_close b = b\<lparr>is_open := False\<rparr>"

section \<open>class SSD1315\<close>

subsection \<open>Command constants\<close>

definition DISPLAY_OFF :: int where "DISPLAY_OFF = 0xAE"
definition DISPLAY_ON :: int where "DISPLAY_ON = 0xAF"
definition SET_CLOCK_DIV :: int where "SET_CLOCK_DIV = 0xD5"
definition SET_MUX_RATIO :: int where "SET_MUX_RATIO = 0xA8"
definition SET_DISPLAY_OFFSET :: int where "SET_DISPLAY_OFFSET = 0xD3"
definition SET_START_LINE :: int where "SET_START_LINE = 0x40"
definition CHARGE_PUMP :: int where "CHARGE_PUMP = 0x8D"
definition CHARGE_PUMP_ON :: int where "CHARGE_PUMP_ON = 0x14"
definition SET_MEMORY_MODE :: int where "SET_MEMORY_MODE = 0x20"
definition SEG_REMAP_ON :: int where "SEG_REMAP_ON = 0xA1"
definition SEG_REMAP_OFF :: int where "SEG_REMAP_OFF = 0xA0"
definition COM_SCAN_DEC :: int where "COM_SCAN_DEC = 0xC8"
definition COM_SCAN_INC :: int where "COM_SCAN_INC = 0xC0"
definition SET_COM_PINS :: int where "SET_COM_PINS = 0xDA"
definition SET_CONTRAST :: int where "SET_CONTRAST = 0x81"
definition SET_PRECHARGE :: int where "SET_PRECHARGE = 0xD9"
definition SET_VCOMH :: int where "SET_VCOMH = 0xDB"
definition DISPLAY_ALL_ON_RESUME :: int where "DISPLAY_ALL_ON_RESUME = 0xA4"
definition NORMAL_DISPLAY :: int where "NORMAL_DISPLAY = 0xA6"
definition INVERSE_DISPLAY :: int where "INVERSE_DISPLAY = 0xA7"
definition SET_COLUMN_ADDR :: int where "SET_COLUMN_ADDR = 0x21"
definition SET_PAGE_ADDR :: int where "SET_PAGE_ADDR = 0x22"

subsection \<open>The object\<close>

text \<open>
  The attributes set by \<^verbatim>\<open>__init__\<close>.  The attribute \<^verbatim>\<open>rotate\<close> is the field
  \<open>rotate_d\<close> and \<^verbatim>\<open>_buffer\<close> is \<open>buffer\<close>.  Methods take the object and return
  it updated; a method that can raise returns the exception, if any, beside the
  object as it is at that moment.
\<close>

record device =
  bus :: smbus
  address :: int
  width :: int
  height :: int
  rotate_d :: int
  pages :: int
  buffer :: "int list"

definition command :: "device \<Rightarrow> int list \<Rightarrow> device" where
  "command d cmds =
     fold (\<lambda>cmd d'. d'\<lparr>bus := write_byte_data (bus d') (address d') 0x00 cmd\<rparr>) cmds d"

definition data :: "device \<Rightarrow> int list \<Rightarrow> device" where
  "data d data_bytes =
     (let chunk_size = 32 in
      fold (\<lambda>i d'. let chunk = py_slice data_bytes i (i + chunk_size)
                    in d'\<lparr>bus := write_i2c_block_data (bus d') (address d') 0x40 chunk\<rparr>)
           (py_range3 0 (length data_bytes) chunk_size) d)"

definition clear :: "device \<Rightarrow> device" where
  "clear d = d\<lparr>buffer := py_repeat 0 (width d * pages d)\<rparr>"

definition display :: "device \<Rightarrow> device" where
  "display d =
     (let d1 = command d [SET_COLUMN_ADDR, 0, width d - 1];
          d2 = command d1 [SET_PAGE_ADDR, 0, pages d1 - 1]
      in data d2 (buffer d2))"

definition init_display :: "device \<Rightarrow> device" where
  "init_display d0 =
     (let d = command d0 [DISPLAY_OFF];
          d = command d [SET_CLOCK_DIV, 0x80];
          d = command d [SET_MUX_RATIO, height d - 1];
          d = command d [SET_DISPLAY_OFFSET, 0x00];
          d = command d [SET_START_LINE OR 0x00];
          d = command d [CHARGE_PUMP, CHARGE_PUMP_ON];
          d = command d [SET_MEMORY_MODE, 0x00];
          d = (if rotate_d d = 0
               then command (command d [SEG_REMAP_ON]) [COM_SCAN_DEC]
               else command (command d [SEG_REMAP_OFF]) [COM_SCAN_INC]);
          com_pins = (if height d \<le> 32 then 0x02 else 0x12);
          d = command d [SET_COM_PINS, com_pins];
          d = command d [SET_CONTRAST, 0xCF];
          d = command d [SET_PRECHARGE, 0xF1];
          d = command d [SET_VCOMH, 0x40];
          d = command d [DISPLAY_ALL_ON_RESUME];
          d = command d [NORMAL_DISPLAY];
          d = command d [DISPLAY_ON];
          d = clear d
      in display d)"

definition SSD1315_init :: "int \<Rightarrow> int \<Rightarrow> int \<Rightarrow> int \<Rightarrow> int \<Rightarrow> device" where
  "SSD1315_init bus_no addr w h r =
     init_display
       \<lparr>bus = SMBus bus_no, address = addr, width = w, height = h, rotate_d = r,
        pages = h div 8, buffer = py_repeat 0 (w * (h div 8))\<rparr>"

text \<open>
  The call \<^verbatim>\<open>SSD1315(bus, address, width, height, rotate)\<close> as its caller sees it:
  an exception or the new object.  \<^verbatim>\<open>__init__\<close> has no \<^verbatim>\<open>raise\<close> and no check
  of its arguments, so the call always yields the object.
\<close>

definition SSD1315 :: "int \<Rightarrow> int \<Rightarrow> int \<Rightarrow> int \<Rightarrow> int \<Rightarrow> error + device" where
  "SSD1315 bus_no addr w h r = Inr (SSD1315_init bus_no addr w h r)"

text \<open>The object built with the default arguments of \<^verbatim>\<open>__init__\<close>.\<close>

definition default_device :: device where
  "default_device = SSD1315_init 1 0x3C 64 32 0"

definition set_pixel :: "device \<Rightarrow> int \<Rightarrow> int \<Rightarrow> int \<Rightarrow> error option \<times> device" where
  "set_pixel d x y color =
     (if 0 \<le> x \<and> x < width d \<and> 0 \<le> y \<and> y < height d then
        (let page = y div 8;
             bit = y mod 8;
             idx = page * width d + x
         in case py_index (buffer d) idx of
              Inl e \<Rightarrow> (Some e, d)
            | Inr k \<Rightarrow>
                if color \<noteq> 0
                then (None, d\<lparr>buffer := (buffer d)[k := (buffer d ! k) OR push_bit (nat bit) 1]\<rparr>)
                else (None, d\<lparr>buffer := (buffer d)[k := (buffer d ! k) AND NOT (push_bit (nat bit) 1)]\<rparr>))
      else (None, d))"

definition fill :: "device \<Rightarrow> int \<Rightarrow> device" where
  "fill d color = d\<lparr>buffer := py_repeat (if color \<noteq> 0 then 0xFF else 0x00) (width d * pages d)\<rparr>"

definition contrast :: "device \<Rightarrow> int \<Rightarrow> device" where
  "contrast d level = command d [SET_CONTRAST, level AND 0xFF]"

definition invert :: "device \<Rightarrow> bool \<Rightarrow> device" where
  "invert d enable = command d [if enable then INVERSE_DISPLAY else NORMAL_DISPLAY]"

definition power :: "device \<Rightarrow> bool \<Rightarrow> device" where
  "power d on = command d [if on then DISPLAY_ON else DISPLAY_OFF]"

definition close :: "device \<Rightarrow> device" where
  "close d = (let d1 = power d False in d1\<lparr>bus := bus_close (bus d1)\<rparr>)"

section \<open>The drawing surface and class Canvas\<close>

text \<open>
  A \<^verbatim>\<open>PIL.Image\<close> is an external collaborator.  The driver reads its mode, its
  size and its pixels (\<^verbatim>\<open>img.load()[x, y]\<close>), and may ask for a 1-bit conversion
  and a resize; the last two are parameters \<open>convert\<close> and \<open>resize\<close> of every
  definition that needs them, so that nothing is assumed about what they return.
\<close>

record pil_image =
  im_mode :: string
  im_size :: "int \<times> int"
  im_pixels :: "int \<times> int \<Rightarrow> int"

definition Image_new :: "string \<Rightarrow> int \<times> int \<Rightarrow> int \<Rightarrow> pil_image" where
  "Image_new m sz color = \<lparr>im_mode = m, im_size = sz, im_pixels = (\<lambda>_. color)\<rparr>"

text \<open>A \<^verbatim>\<open>for\<close> loop whose body may raise: the first exception ends the loop.\<close>

fun for_loop :: "'a list \<Rightarrow> ('a \<Rightarrow> device \<Rightarrow> error option \<times> device) \<Rightarrow> device
                 \<Rightarrow> error option \<times> device" where
  "for_loop [] body d = (None, d)"
| "for_loop (i # rest) body d =
     (case body i d of
        (Some e, d') \<Rightarrow> (Some e, d')
      | (None, d') \<Rightarrow> for_loop rest body d')"

definition image_d :: "(pil_image \<Rightarrow> pil_image) \<Rightarrow> (pil_image \<Rightarrow> int \<times> int \<Rightarrow> pil_image)
                       \<Rightarrow> device \<Rightarrow> pil_image \<Rightarrow> error option \<times> device" where
  "image_d convert resize d img0 =
     (let img = (if im_mode img0 \<noteq> ''1'' then convert img0 else img0);
          img = (if im_size img \<noteq> (width d, height d)
                 then resize img (width d, height d) else img);
          d1 = clear d;
          pixels = im_pixels img
      in for_loop (py_range (height d1))
           (\<lambda>y. for_loop (py_range (width d1))
             (\<lambda>x d'. if pixels (x, y) \<noteq> 0 then set_pixel d' x y 1 else (None, d')))
           d1)"

text \<open>
  The image whose pixels the two loops of \<^verbatim>\<open>image\<close> read: the argument after the
  conversion and the resize at the head of the method.
\<close>

definition ingested :: "(pil_image \<Rightarrow> pil_image) \<Rightarrow> (pil_image \<Rightarrow> int \<times> int \<Rightarrow> pil_image)
                        \<Rightarrow> device \<Rightarrow> pil_image \<Rightarrow> pil_image" where
  "ingested convert resize d img0 =
     (let img = (if im_mode img0 \<noteq> ''1'' then convert img0 else img0)
      in if im_size img \<noteq> (width d, height d) then resize img (width d, height d) else img)"

text \<open>
  A \<^verbatim>\<open>Canvas\<close> holds the device it was given and a fresh 1-bit image; the
  \<^verbatim>\<open>ImageDraw\<close> object handed to the caller draws on that image.  The device is
  shared with the caller, so it is threaded through as state beside the image.
  \<^verbatim>\<open>__exit__\<close> returns the flag that tells Python whether to swallow the
  exception of the body, or raises itself.
\<close>

definition Canvas_init :: "device \<Rightarrow> pil_image" where
  "Canvas_init d = Image_new ''1'' (width d, height d) 0"

definition Canvas_exit :: "(pil_image \<Rightarrow> pil_image) \<Rightarrow> (pil_image \<Rightarrow> int \<times> int \<Rightarrow> pil_image)
                           \<Rightarrow> device \<Rightarrow> pil_image \<Rightarrow> (error + bool) \<times> device" where
  "Canvas_exit convert resize d img =
     (case image_d convert resize d img of
        (Some e, d1) \<Rightarrow> (Inl e, d1)
      | (None, d1) \<Rightarrow> (Inr False, display d1))"

text \<open>
  The statement \<^verbatim>\<open>with canvas(device) as draw: body\<close>.  The body is the caller's
  code: it works on the image and the device and may raise.  Python then calls
  \<^verbatim>\<open>__exit__\<close>; an exception raised there replaces the one of the body, a true
  result swallows the exception of the body, a false one lets it through.
\<close>

definition with_canvas ::
  "(pil_image \<Rightarrow> pil_image) \<Rightarrow> (pil_image \<Rightarrow> int \<times> int \<Rightarrow> pil_image) \<Rightarrow> device
     \<Rightarrow> (pil_image \<times> device \<Rightarrow> error option \<times> pil_image \<times> device)
     \<Rightarrow> error option \<times> device" where
  "with_canvas convert resize d body =
     (case body (Canvas_init d, d) of
        (exc, img, d1) \<Rightarrow>
          (case Canvas_exit convert resize d1 img of
             (Inl e, d2) \<Rightarrow> (Some e, d2)
           | (Inr suppress, d2) \<Rightarrow>
               (case exc of
                  None \<Rightarrow> (None, d2)
                | Some e \<Rightarrow> if suppress then (None, d2) else (Some e, d2))))"

section \<open>Reading the bus\<close>

text \<open>
  What a list of writes carries: the command bytes (single-byte writes to register
  0x00) and the data payload (block writes to register 0x40), each in the order sent.
\<close>

fun command_bytes :: "bus_write list \<Rightarrow> int list" where
  "command_bytes [] = []"
| "command_bytes (WriteByte a r v # ws) = (if r = 0x00 then v # command_bytes ws else command_bytes ws)"
| "command_bytes (WriteBlock a r vs # ws) = command_bytes ws"

fun data_payload :: "bus_write list \<Rightarrow> int list" where
  "data_payload [] = []"
| "data_payload (WriteByte a r v # ws) = data_payload ws"
| "data_payload (WriteBlock a r vs # ws) = (if r = 0x40 then vs @ data_payload ws else data_payload ws)"

text \<open>The writes a step added to the bus: those after the ones already there.\<close>

definition sent :: "device \<Rightarrow> device \<Rightarrow> bus_write list" where
  "sent before after = drop (length (writes (bus before))) (writes (bus after))"

text \<open>The slices \<^verbatim>\<open>_data\<close> cuts a payload into, one per round of its loop.\<close>

definition chunks :: "int list \<Rightarrow> int list list" where
  "chunks bs = map (\<lambda>i. py_slice bs i (i + 32)) (py_range3 0 (length bs) 32)"

section \<open>The configuration of the data model\<close>

text \<open>
  The geometry the data model asks for (width positive, height a positive multiple
  of 8, one page per 8 rows) and the buffer that goes with it.
\<close>

definition valid_geometry :: "device \<Rightarrow> bool" where
  "valid_geometry d \<longleftrightarrow>
     0 < width d \<and> 0 < height d \<and> height d mod 8 = 0 \<and> pages d = height d div 8"

definition well_formed :: "device \<Rightarrow> bool" where
  "well_formed d \<longleftrightarrow> valid_geometry d \<and> int (length (buffer d)) = width d * pages d"

text \<open>
  The position of a pixel in the words of the data model: page \<open>y div 8\<close>, byte
  \<open>page * width + x\<close>, bit \<open>y mod 8\<close> of that byte.
\<close>

definition spec_idx :: "device \<Rightarrow> int \<Rightarrow> int \<Rightarrow> nat" where
  "spec_idx d x y = nat ((y div 8) * width d + x)"

definition spec_bit :: "int \<Rightarrow> nat" where
  "spec_bit y = nat (y mod 8)"

text \<open>Two states of the object that differ at most in the contents of the buffer.\<close>

definition same_shape :: "device \<Rightarrow> device \<Rightarrow> bool" where
  "same_shape d d' \<longleftrightarrow>
     bus d' = bus d \<and> address d' = address d \<and> width d' = width d \<and> height d' = height d
     \<and> rotate_d d' = rotate_d d \<and> pages d' = pages d \<and> length (buffer d') = length (buffer d)"

section \<open>Example callers\<close>

text \<open>
  Inputs at which the theorems about ingestion and \<^verbatim>\<open>Canvas\<close> are instantiated: a
  point drawn on the surface, stand-ins for the conversion and the resize of the
  imaging library, a body that draws the point (32, 16) and returns, and one that
  draws it and then raises.
\<close>

definition draw_point :: "pil_image \<Rightarrow> int \<times> int \<Rightarrow> int \<Rightarrow> pil_image" where
  "draw_point img xy v = img\<lparr>im_pixels := (im_pixels img)(xy := v)\<rparr>"

definition to_one_bit :: "pil_image \<Rightarrow> pil_image" where
  "to_one_bit img = img\<lparr>im_mode := ''1''\<rparr>"

definition to_size :: "pil_image \<Rightarrow> int \<times> int \<Rightarrow> pil_image" where
  "to_size img sz = img\<lparr>im_size := sz\<rparr>"

definition body_point :: "pil_image \<times> device \<Rightarrow> error option \<times> pil_image \<times> device" where
  "body_point = (\<lambda>(img, d). (None, draw_point img (32, 16) 1, d))"

definition body_raises :: "pil_image \<times> device \<Rightarrow> error option \<times> pil_image \<times> device" where
  "body_raises = (\<lambda>(img, d). (Some (CallerError ''mid-draw''), draw_point img (32, 16) 1, d))"

section \<open>Basic facts\<close>

declare py_range3.simps [simp del]

lemmas opcode_defs =
  DISPLAY_OFF_def DISPLAY_ON_def SET_CLOCK_DIV_def SET_MUX_RATIO_def
  SET_DISPLAY_OFFSET_def SET_START_LINE_def CHARGE_PUMP_def CHARGE_PUMP_ON_def
  SET_MEMORY_MODE_def SEG_REMAP_ON_def SEG_REMAP_OFF_def COM_SCAN_DEC_def
  COM_SCAN_INC_def SET_COM_PINS_def SET_CONTRAST_def SET_PRECHARGE_def SET_VCOMH_def
  DISPLAY_ALL_ON_RESUME_def NORMAL_DISPLAY_def INVERSE_DISPLAY_def
  SET_COLUMN_ADDR_def SET_PAGE_ADDR_def

subsection \<open>Commands and data on the bus\<close>

lemma command_fields [simp]:
  "address (command d cmds) = address d"
  "width (command d cmds) = width d"
  "height (command d cmds) = height d"
  "rotate_d (command d cmds) = rotate_d d"
  "pages (command d cmds) = pages d"
  "buffer (command d cmds) = buffer d"
  unfolding command_def by (induction cmds arbitrary: d) simp_all

lemma command_bus:
  "bus (command d cmds) = (bus d)\<lparr>writes := writes (bus d) @ map (WriteByte (address d) 0x00) cmds\<rparr>"
  unfolding command_def
  by (induction cmds arbitrary: d) (simp_all add: write_byte_data_def)

lemma command_writes [simp]:
  "writes (bus (command d cmds)) = writes (bus d) @ map (WriteByte (address d) 0x00) cmds"
  by (simp add: command_bus)

lemma fold_block_fields:
  "address (fold (\<lambda>i d'. d'\<lparr>bus := write_i2c_block_data (bus d') (address d') r (f i)\<rparr>) is d) = address d"
  "width (fold (\<lambda>i d'. d'\<lparr>bus := write_i2c_block_data (bus d') (address d') r (f i)\<rparr>) is d) = width d"
  "height (fold (\<lambda>i d'. d'\<lparr>bus := write_i2c_block_data (bus d') (address d') r (f i)\<rparr>) is d) = height d"
  "rotate_d (fold (\<lambda>i d'. d'\<lparr>bus := write_i2c_block_data (bus d') (address d') r (f i)\<rparr>) is d) = rotate_d d"
  "pages (fold (\<lambda>i d'. d'\<lparr>bus := write_i2c_block_data (bus d') (address d') r (f i)\<rparr>) is d) = pages d"
  "buffer (fold (\<lambda>i d'. d'\<lparr>bus := write_i2c_block_data (bus d') (address d') r (f i)\<rparr>) is d) = buffer d"
  by (induction "is" arbitrary: d) simp_all

lemma fold_block_bus:
  "bus (fold (\<lambda>i d'. d'\<lparr>bus := write_i2c_block_data (bus d') (address d') r (f i)\<rparr>) is d)
     = (bus d)\<lparr>writes := writes (bus d) @ map (\<lambda>i. WriteBlock (address d) r (f i)) is\<rparr>"
  by (induction "is" arbitrary: d) (simp_all add: write_i2c_block_data_def)

lemma data_fields [simp]:
  "address (data d bs) = address d"
  "width (data d bs) = width d"
  "height (data d bs) = height d"
  "rotate_d (data d bs) = rotate_d d"
  "pages (data d bs) = pages d"
  "buffer (data d bs) = buffer d"
  unfolding data_def Let_def by (simp_all add: fold_block_fields)

lemma data_writes:
  "writes (bus (data d bs)) = writes (bus d) @ map (WriteBlock (address d) 0x40) (chunks bs)"
  unfolding data_def Let_def chunks_def by (simp add: fold_block_bus comp_def)

lemma concat_slices:
  "0 < step \<Longrightarrow> concat (map (\<lambda>i. py_slice bs i (i + step)) (py_range3 k (length bs) step)) = drop k bs"
proof (induction k "length bs" step rule: py_range3.induct)
  case (1 start step)
  show ?case
  proof (cases "length bs \<le> start")
    case True
    then show ?thesis by (simp add: py_range3.simps)
  next
    case False
    with 1 have "concat (map (\<lambda>i. py_slice bs i (i + step)) (py_range3 (start + step) (length bs) step)) = drop (start + step) bs"
      by simp
    moreover have "take step (drop start bs) @ drop (start + step) bs = drop start bs"
      using append_take_drop_id [of step "drop start bs"] by (simp add: add.commute)
    ultimately show ?thesis using False 1(2)
      by (subst py_range3.simps) (simp add: py_slice_def)
  qed
qed

lemma div_add_step: "0 < step \<Longrightarrow> (m + step) div step = Suc (m div step)" for m step :: nat
  using div_add_self2 [of step m] by simp

lemma length_range3:
  "0 < step \<Longrightarrow> length (py_range3 k n step) = (n - k + (step - 1)) div step"
proof (induction k n step rule: py_range3.induct)
  case (1 start stop step)
  show ?case
  proof (cases "stop \<le> start")
    case True
    then show ?thesis using 1(2) by (simp add: py_range3.simps)
  next
    case False
    with 1 have ih: "length (py_range3 (start + step) stop step) = (stop - (start + step) + (step - 1)) div step"
      by simp
    have "(stop - start + (step - 1)) div step = Suc ((stop - (start + step) + (step - 1)) div step)"
    proof (cases "stop - start \<le> step")
      case True
      with False 1(2) have "(stop - start + (step - 1)) div step = 1"
        by (intro div_nat_eqI) auto
      moreover from True have "stop - (start + step) = 0" by simp
      ultimately show ?thesis using 1(2) by simp
    next
      case False
      then have "stop - start + (step - 1) = (stop - (start + step) + (step - 1)) + step" by simp
      then have "(stop - start + (step - 1)) div step
                   = ((stop - (start + step) + (step - 1)) + step) div step"
        by (rule arg_cong)
      also have "\<dots> = Suc ((stop - (start + step) + (step - 1)) div step)"
        by (rule div_add_step [OF 1(2)])
      finally show ?thesis .
    qed
    with False 1(2) ih show ?thesis
      by (subst py_range3.simps) simp
  qed
qed

lemma chunks_concat: "concat (chunks bs) = bs"
  unfolding chunks_def using concat_slices [of 32 bs 0] by simp

lemma chunks_length: "length (chunks bs) = (length bs + 31) div 32"
  unfolding chunks_def by (simp add: length_range3)

lemma chunks_small: "c \<in> set (chunks bs) \<Longrightarrow> length c \<le> 32"
  unfolding chunks_def by (auto simp: py_slice_def)

lemma sent_append: "writes (bus d') = writes (bus d) @ ws \<Longrightarrow> sent d d' = ws"
  by (simp add: sent_def)

subsection \<open>Pixels\<close>

lemma py_index_in_range:
  "0 \<le> i \<Longrightarrow> i < int (length xs) \<Longrightarrow> py_index xs i = Inr (nat i)"
  by (simp add: py_index_def)

lemma pixel_idx_bound:
  fixes x y w p :: int
  assumes "0 \<le> x" "x < w" "0 \<le> y" "y < 8 * p"
  shows "0 \<le> (y div 8) * w + x" "(y div 8) * w + x < w * p"
proof -
  from assms have q: "0 \<le> y div 8" "y div 8 + 1 \<le> p" by auto
  from assms q show "0 \<le> (y div 8) * w + x" by simp
  have "(y div 8) * w + x < (y div 8 + 1) * w" using assms by (simp add: algebra_simps)
  also have "\<dots> \<le> p * w" using q assms by (intro mult_right_mono) auto
  finally show "(y div 8) * w + x < w * p" by (simp add: mult.commute)
qed

lemma well_formed_height: "well_formed d \<Longrightarrow> height d = 8 * pages d"
  by (auto simp: well_formed_def valid_geometry_def)

lemma set_pixel_fields [simp]:
  "bus (snd (set_pixel d x y c)) = bus d"
  "address (snd (set_pixel d x y c)) = address d"
  "width (snd (set_pixel d x y c)) = width d"
  "height (snd (set_pixel d x y c)) = height d"
  "rotate_d (snd (set_pixel d x y c)) = rotate_d d"
  "pages (snd (set_pixel d x y c)) = pages d"
  "length (buffer (snd (set_pixel d x y c))) = length (buffer d)"
  by (simp_all add: set_pixel_def Let_def split: sum.splits)

lemma set_pixel_at:
  assumes "0 \<le> x" "x < width d" "0 \<le> y" "y < height d"
    and "(y div 8) * width d + x < int (length (buffer d))"
  shows "set_pixel d x y c =
           (None, d\<lparr>buffer := (buffer d)[spec_idx d x y :=
              (if c \<noteq> 0 then (buffer d ! spec_idx d x y) OR push_bit (spec_bit y) 1
               else (buffer d ! spec_idx d x y) AND NOT (push_bit (spec_bit y) 1))]\<rparr>)"
proof -
  from assms have "0 \<le> (y div 8) * width d + x" by simp
  with assms(5) have "py_index (buffer d) ((y div 8) * width d + x) = Inr (spec_idx d x y)"
    unfolding spec_idx_def by (simp add: py_index_in_range)
  with assms(1-4) show ?thesis
    by (simp add: set_pixel_def Let_def spec_bit_def)
qed

subsection \<open>Initialisation and commit\<close>

lemma clear_fields [simp]:
  "bus (clear d) = bus d"
  "address (clear d) = address d"
  "width (clear d) = width d"
  "height (clear d) = height d"
  "rotate_d (clear d) = rotate_d d"
  "pages (clear d) = pages d"
  "buffer (clear d) = replicate (nat (width d * pages d)) 0"
  by (simp_all add: clear_def py_repeat_def)

lemma display_fields [simp]:
  "address (display d) = address d"
  "width (display d) = width d"
  "height (display d) = height d"
  "rotate_d (display d) = rotate_d d"
  "pages (display d) = pages d"
  "buffer (display d) = buffer d"
  by (simp_all add: display_def Let_def)

lemma display_writes:
  "writes (bus (display d)) =
     writes (bus d)
     @ map (WriteByte (address d) 0x00) [0x21, 0, width d - 1, 0x22, 0, pages d - 1]
     @ map (WriteBlock (address d) 0x40) (chunks (buffer d))"
  by (simp add: display_def Let_def data_writes opcode_defs)

lemma data_payload_append: "data_payload (xs @ ys) = data_payload xs @ data_payload ys"
  by (induction xs rule: data_payload.induct) simp_all

lemma data_payload_bytes: "data_payload (map (WriteByte a r) vs) = []"
  by (induction vs) simp_all

lemma data_payload_blocks: "data_payload (map (WriteBlock a 0x40) cs) = concat cs"
  by (induction cs) simp_all

lemma command_bytes_append: "command_bytes (xs @ ys) = command_bytes xs @ command_bytes ys"
  by (induction xs rule: command_bytes.induct) simp_all

lemma command_bytes_bytes: "command_bytes (map (WriteByte a 0x00) vs) = vs"
  by (induction vs) simp_all

lemma command_bytes_blocks: "command_bytes (map (WriteBlock a r) cs) = []"
  by (induction cs) simp_all

lemma init_display_fields [simp]:
  "address (init_display d) = address d"
  "width (init_display d) = width d"
  "height (init_display d) = height d"
  "rotate_d (init_display d) = rotate_d d"
  "pages (init_display d) = pages d"
  "buffer (init_display d) = replicate (nat (width d * pages d)) 0"
  by (simp_all add: init_display_def Let_def)

lemma init_display_writes:
  "writes (bus (init_display d)) =
     writes (bus d)
     @ map (WriteByte (address d) 0x00)
         ([0xAE, 0xD5, 0x80, 0xA8, height d - 1, 0xD3, 0x00, 0x40, 0x8D, 0x14, 0x20, 0x00]
          @ (if rotate_d d = 0 then [0xA1, 0xC8] else [0xA0, 0xC0])
          @ [0xDA, if height d \<le> 32 then 0x02 else 0x12, 0x81, 0xCF, 0xD9, 0xF1,
             0xDB, 0x40, 0xA4, 0xA6, 0xAF]
          @ [0x21, 0, width d - 1, 0x22, 0, pages d - 1])
     @ map (WriteBlock (address d) 0x40) (chunks (replicate (nat (width d * pages d)) 0))"
  by (simp add: init_display_def Let_def display_writes opcode_defs)

lemma SSD1315_init_fields [simp]:
  "address (SSD1315_init b a w h r) = a"
  "width (SSD1315_init b a w h r) = w"
  "height (SSD1315_init b a w h r) = h"
  "rotate_d (SSD1315_init b a w h r) = r"
  "pages (SSD1315_init b a w h r) = h div 8"
  "buffer (SSD1315_init b a w h r) = replicate (nat (w * (h div 8))) 0"
  by (simp_all add: SSD1315_init_def)

lemma SSD1315_init_writes:
  "writes (bus (SSD1315_init b a w h r)) =
     map (WriteByte a 0x00)
         ([0xAE, 0xD5, 0x80, 0xA8, h - 1, 0xD3, 0x00, 0x40, 0x8D, 0x14, 0x20, 0x00]
          @ (if r = 0 then [0xA1, 0xC8] else [0xA0, 0xC0])
          @ [0xDA, if h \<le> 32 then 0x02 else 0x12, 0x81, 0xCF, 0xD9, 0xF1,
             0xDB, 0x40, 0xA4, 0xA6, 0xAF]
          @ [0x21, 0, w - 1, 0x22, 0, h div 8 - 1])
     @ map (WriteBlock a 0x40) (chunks (replicate (nat (w * (h div 8))) 0))"
  unfolding SSD1315_init_def by (simp add: init_display_writes SMBus_def)

lemma SSD1315_init_well_formed:
  "0 < w \<Longrightarrow> 0 < h \<Longrightarrow> h mod 8 = 0 \<Longrightarrow> well_formed (SSD1315_init b a w h r)"
  by (simp add: well_formed_def valid_geometry_def)

lemma default_device_fields [simp]:
  "address default_device = 0x3C"
  "width default_device = 64"
  "height default_device = 32"
  "rotate_d default_device = 0"
  "pages default_device = 4"
  "buffer default_device = replicate 256 0"
  by (simp_all add: default_device_def)

lemma default_device_well_formed: "well_formed default_device"
  unfolding default_device_def by (rule SSD1315_init_well_formed) simp_all

subsection \<open>Ingesting an image\<close>

lemma for_loop_keeps:
  assumes "\<And>i d. i \<in> set js \<Longrightarrow> P d \<Longrightarrow> P (snd (body i d))" and "P d"
  shows "P (snd (for_loop js body d))"
  using assms
proof (induction js arbitrary: d)
  case Nil
  then show ?case by simp
next
  case (Cons j js)
  obtain e d' where b: "body j d = (e, d')" by (cases "body j d")
  from Cons.prems(1) [of j d] Cons.prems(2) b have p: "P d'" by simp
  show ?case
  proof (cases e)
    case None
    with b p Cons show ?thesis by simp
  next
    case (Some a)
    with b p show ?thesis by simp
  qed
qed

lemma for_loop_completes:
  assumes "\<And>i d. i \<in> set js \<Longrightarrow> P d \<Longrightarrow> fst (body i d) = None \<and> P (snd (body i d))"
    and "P d"
  shows "fst (for_loop js body d) = None \<and> P (snd (for_loop js body d))"
  using assms
proof (induction js arbitrary: d)
  case Nil
  then show ?case by simp
next
  case (Cons j js)
  obtain e d' where b: "body j d = (e, d')" by (cases "body j d")
  from Cons.prems(1) [of j d] Cons.prems(2) b have p: "e = None" "P d'" by simp_all
  with b Cons show ?case by simp
qed

lemma py_range_mem: "i \<in> set (py_range n) \<Longrightarrow> 0 \<le> i \<and> i < n"
  by (auto simp: py_range_def)

lemma same_shape_refl: "same_shape d d"
  by (simp add: same_shape_def)

lemma same_shape_set_pixel: "same_shape d d' \<Longrightarrow> same_shape d (snd (set_pixel d' x y c))"
  by (simp add: same_shape_def)

lemma image_d_unfold:
  "\<exists>p :: int \<times> int \<Rightarrow> int. image_d convert resize d img0 =
     for_loop (py_range (height d))
       (\<lambda>y. for_loop (py_range (width d))
          (\<lambda>x d'. if p (x, y) \<noteq> 0 then set_pixel d' x y 1 else (None, d')))
       (clear d)"
  by (rule exI [where x = "im_pixels
        (if im_size (if im_mode img0 \<noteq> ''1'' then convert img0 else img0) \<noteq> (width d, height d)
         then resize (if im_mode img0 \<noteq> ''1'' then convert img0 else img0) (width d, height d)
         else (if im_mode img0 \<noteq> ''1'' then convert img0 else img0))"])
     (simp add: image_d_def Let_def)

lemma ingest_shape:
  fixes p :: "int \<times> int \<Rightarrow> int"
  shows "same_shape d0 d \<Longrightarrow>
   same_shape d0 (snd (for_loop ys
       (\<lambda>y. for_loop xs (\<lambda>x d'. if p (x, y) \<noteq> 0 then set_pixel d' x y 1 else (None, d'))) d))"
  by (intro for_loop_keeps [where P = "same_shape d0"]) (simp_all add: same_shape_set_pixel)

lemma image_d_shape: "same_shape (clear d) (snd (image_d convert resize d img))"
proof -
  from image_d_unfold [of convert resize d img] obtain p :: "int \<times> int \<Rightarrow> int" where
    "image_d convert resize d img =
       for_loop (py_range (height d))
         (\<lambda>y. for_loop (py_range (width d))
            (\<lambda>x d'. if p (x, y) \<noteq> 0 then set_pixel d' x y 1 else (None, d')))
         (clear d)" ..
  then show ?thesis by (simp add: ingest_shape same_shape_refl)
qed

lemma image_d_length:
  assumes "int (length (buffer d)) = width d * pages d"
  shows "length (buffer (snd (image_d convert resize d img))) = length (buffer d)"
proof -
  from image_d_shape [of d convert resize img]
  have "length (buffer (snd (image_d convert resize d img))) = nat (width d * pages d)"
    by (simp add: same_shape_def)
  with assms show ?thesis by simp
qed

lemma valid_geometry_size: "valid_geometry d \<Longrightarrow> 0 \<le> width d * pages d"
  by (simp add: valid_geometry_def pos_imp_zdiv_nonneg_iff)

lemma set_pixel_completes:
  assumes "valid_geometry d" and "same_shape (clear d) d'"
    and "0 \<le> x \<and> x < width d" and "0 \<le> y \<and> y < height d"
  shows "fst (set_pixel d' x y c) = None"
proof -
  from assms(2) valid_geometry_size [OF assms(1)]
  have f: "width d' = width d" "height d' = height d"
    "int (length (buffer d')) = width d * pages d"
    by (simp_all add: same_shape_def)
  from assms(1) have h: "height d = 8 * pages d" by (auto simp: valid_geometry_def)
  from assms(4) h have "y < 8 * pages d" by simp
  with assms(3,4) have "(y div 8) * width d + x < width d * pages d"
    by (intro pixel_idx_bound) simp_all
  with f assms(3,4) show ?thesis
    by (subst set_pixel_at) simp_all
qed

lemma ingest_row_completes:
  fixes p :: "int \<times> int \<Rightarrow> int"
  assumes "valid_geometry d" and "0 \<le> y \<and> y < height d" and "same_shape (clear d) d'"
  shows "fst (for_loop (py_range (width d))
                (\<lambda>x d'. if p (x, y) \<noteq> 0 then set_pixel d' x y 1 else (None, d')) d') = None
         \<and> same_shape (clear d)
              (snd (for_loop (py_range (width d))
                (\<lambda>x d'. if p (x, y) \<noteq> 0 then set_pixel d' x y 1 else (None, d')) d'))"
proof (rule for_loop_completes [where P = "same_shape (clear d)"])
  fix x d''
  assume x: "x \<in> set (py_range (width d))" and s: "same_shape (clear d) d''"
  from x have "0 \<le> x \<and> x < width d" by (rule py_range_mem)
  with assms(1) s have "fst (set_pixel d'' x y 1) = None"
    using assms(2) by (rule set_pixel_completes)
  with s show "fst (if p (x, y) \<noteq> 0 then set_pixel d'' x y 1 else (None, d'')) = None
      \<and> same_shape (clear d) (snd (if p (x, y) \<noteq> 0 then set_pixel d'' x y 1 else (None, d'')))"
    by (simp add: same_shape_set_pixel)
qed (rule assms(3))

lemma image_d_completes:
  assumes "valid_geometry d"
  shows "fst (image_d convert resize d img) = None"
proof -
  from image_d_unfold [of convert resize d img] obtain p :: "int \<times> int \<Rightarrow> int" where
    eq: "image_d convert resize d img =
       for_loop (py_range (height d))
         (\<lambda>y. for_loop (py_range (width d))
            (\<lambda>x d'. if p (x, y) \<noteq> 0 then set_pixel d' x y 1 else (None, d')))
         (clear d)" ..
  have "fst (for_loop (py_range (height d))
         (\<lambda>y. for_loop (py_range (width d))
            (\<lambda>x d'. if p (x, y) \<noteq> 0 then set_pixel d' x y 1 else (None, d')))
         (clear d)) = None
       \<and> same_shape (clear d) (snd (for_loop (py_range (height d))
         (\<lambda>y. for_loop (py_range (width d))
            (\<lambda>x d'. if p (x, y) \<noteq> 0 then set_pixel d' x y 1 else (None, d')))
         (clear d)))"
  proof (rule for_loop_completes [where P = "same_shape (clear d)"])
    fix y d'
    assume "y \<in> set (py_range (height d))" and s: "same_shape (clear d) d'"
    then have "0 \<le> y \<and> y < height d" by (simp add: py_range_mem)
    with assms show "fst (for_loop (py_range (width d))
                (\<lambda>x d'. if p (x, y) \<noteq> 0 then set_pixel d' x y 1 else (None, d')) d') = None
         \<and> same_shape (clear d)
              (snd (for_loop (py_range (width d))
                (\<lambda>x d'. if p (x, y) \<noteq> 0 then set_pixel d' x y 1 else (None, d')) d'))"
      using s by (rule ingest_row_completes)
  qed (rule same_shape_refl)
  with eq show ?thesis by simp
qed

lemma Canvas_exit_valid:
  assumes "valid_geometry d"
  shows "Canvas_exit convert resize d img = (Inr False, display (snd (image_d convert resize d img)))"
  using image_d_completes [OF assms, of convert resize img]
  by (cases "image_d convert resize d img") (simp add: Canvas_exit_def)

lemma with_canvas_valid:
  assumes "body (Canvas_init d, d) = (exc, img, d1)" and "valid_geometry d1"
  shows "with_canvas convert resize d body = (exc, display (snd (image_d convert resize d1 img)))"
  using assms by (simp add: with_canvas_def Canvas_exit_valid split: option.splits)

subsection \<open>What an ingest writes\<close>

lemma image_d_ingested:
  "image_d convert resize d img0 =
     for_loop (py_range (height d))
       (\<lambda>y. for_loop (py_range (width d))
          (\<lambda>x d'. if im_pixels (ingested convert resize d img0) (x, y) \<noteq> 0
                   then set_pixel d' x y 1 else (None, d')))
       (clear d)"
  by (simp add: image_d_def ingested_def Let_def)

lemma for_loop_collects:
  assumes "\<And>i d. i \<in> set js \<Longrightarrow> P d \<Longrightarrow>
             fst (body i d) = None \<and> P (snd (body i d))
             \<and> (\<forall>k n. Q (snd (body i d)) k n \<longleftrightarrow> Q d k n \<or> R i k n)"
    and "P d"
  shows "fst (for_loop js body d) = None \<and> P (snd (for_loop js body d))
         \<and> (\<forall>k n. Q (snd (for_loop js body d)) k n \<longleftrightarrow> Q d k n \<or> (\<exists>i \<in> set js. R i k n))"
  using assms
proof (induction js arbitrary: d)
  case Nil
  then show ?case by simp
next
  case (Cons j js)
  obtain e d' where b: "body j d = (e, d')" by (cases "body j d")
  from Cons.prems(1) [of j d] Cons.prems(2) b
  have p: "e = None" "P d'" "\<forall>k n. Q d' k n \<longleftrightarrow> Q d k n \<or> R j k n" by simp_all
  have "fst (for_loop js body d') = None \<and> P (snd (for_loop js body d'))
         \<and> (\<forall>k n. Q (snd (for_loop js body d')) k n \<longleftrightarrow> Q d' k n \<or> (\<exists>i \<in> set js. R i k n))"
    by (rule Cons.IH) (simp_all add: Cons.prems(1) p(2))
  with b p show ?case by auto
qed

lemma set_pixel_lights:
  assumes "valid_geometry d" and "same_shape (clear d) d'"
    and "0 \<le> x \<and> x < width d" and "0 \<le> y \<and> y < height d"
  shows "fst (set_pixel d' x y 1) = None \<and> same_shape (clear d) (snd (set_pixel d' x y 1))
         \<and> (\<forall>k n. bit (buffer (snd (set_pixel d' x y 1)) ! k) n \<longleftrightarrow>
               bit (buffer d' ! k) n \<or> (k = spec_idx d x y \<and> n = spec_bit y))"
proof -
  from assms(2) valid_geometry_size [OF assms(1)]
  have f: "width d' = width d" "height d' = height d"
    "int (length (buffer d')) = width d * pages d"
    by (simp_all add: same_shape_def)
  from assms(1) have h: "height d = 8 * pages d" by (auto simp: valid_geometry_def)
  from assms(4) h have "y < 8 * pages d" by simp
  with assms(3,4) have b: "0 \<le> (y div 8) * width d + x" "(y div 8) * width d + x < width d * pages d"
    by (intro pixel_idx_bound; simp)+
  from b f have lt: "(y div 8) * width d' + x < int (length (buffer d'))" by simp
  have i: "spec_idx d' x y = spec_idx d x y" by (simp add: spec_idx_def f)
  from b f have k: "spec_idx d x y < length (buffer d')" by (simp add: spec_idx_def)
  have eq: "set_pixel d' x y 1 =
      (None, d'\<lparr>buffer := (buffer d')[spec_idx d x y :=
                  (buffer d' ! spec_idx d x y) OR push_bit (spec_bit y) 1]\<rparr>)"
    using set_pixel_at [of x d' y 1] assms(3,4) f lt by (simp add: i)
  show ?thesis
    unfolding eq using k assms(2)
    by (auto simp: same_shape_def nth_list_update bit_or_iff bit_exp_iff)
qed

lemma ingest_row_bits:
  fixes p :: "int \<times> int \<Rightarrow> int"
  assumes "valid_geometry d" and "0 \<le> y \<and> y < height d" and "same_shape (clear d) d'"
  shows "fst (for_loop (py_range (width d))
                (\<lambda>x d'. if p (x, y) \<noteq> 0 then set_pixel d' x y 1 else (None, d')) d') = None
         \<and> same_shape (clear d)
              (snd (for_loop (py_range (width d))
                (\<lambda>x d'. if p (x, y) \<noteq> 0 then set_pixel d' x y 1 else (None, d')) d'))
         \<and> (\<forall>k n. bit (buffer (snd (for_loop (py_range (width d))
                (\<lambda>x d'. if p (x, y) \<noteq> 0 then set_pixel d' x y 1 else (None, d')) d')) ! k) n
               \<longleftrightarrow> bit (buffer d' ! k) n
                 \<or> (\<exists>x \<in> set (py_range (width d)).
                       p (x, y) \<noteq> 0 \<and> k = spec_idx d x y \<and> n = spec_bit y))"
proof (rule for_loop_collects [where P = "same_shape (clear d)"
      and Q = "\<lambda>d k n. bit (buffer d ! k) n"
      and R = "\<lambda>x k n. p (x, y) \<noteq> 0 \<and> k = spec_idx d x y \<and> n = spec_bit y"])
  fix x d''
  assume x: "x \<in> set (py_range (width d))" and s: "same_shape (clear d) d''"
  from x have "0 \<le> x \<and> x < width d" by (rule py_range_mem)
  with assms(1) s have l: "fst (set_pixel d'' x y 1) = None
      \<and> same_shape (clear d) (snd (set_pixel d'' x y 1))
      \<and> (\<forall>k n. bit (buffer (snd (set_pixel d'' x y 1)) ! k) n \<longleftrightarrow>
               bit (buffer d'' ! k) n \<or> (k = spec_idx d x y \<and> n = spec_bit y))"
    using assms(2) by (rule set_pixel_lights)
  show "fst (if p (x, y) \<noteq> 0 then set_pixel d'' x y 1 else (None, d'')) = None
      \<and> same_shape (clear d) (snd (if p (x, y) \<noteq> 0 then set_pixel d'' x y 1 else (None, d'')))
      \<and> (\<forall>k n. bit (buffer (snd (if p (x, y) \<noteq> 0 then set_pixel d'' x y 1 else (None, d''))) ! k) n
            \<longleftrightarrow> bit (buffer d'' ! k) n \<or> (p (x, y) \<noteq> 0 \<and> k = spec_idx d x y \<and> n = spec_bit y))"
  proof (cases "p (x, y) \<noteq> 0")
    case True
    with l show ?thesis by simp
  next
    case False
    with s show ?thesis by simp
  qed
qed (rule assms(3))

lemma ingest_bits:
  fixes p :: "int \<times> int \<Rightarrow> int"
  assumes "valid_geometry d"
  shows "\<forall>k n. bit (buffer (snd (for_loop (py_range (height d))
            (\<lambda>y. for_loop (py_range (width d))
               (\<lambda>x d'. if p (x, y) \<noteq> 0 then set_pixel d' x y 1 else (None, d')))
            (clear d))) ! k) n
          \<longleftrightarrow> bit (buffer (clear d) ! k) n
              \<or> (\<exists>y \<in> set (py_range (height d)). \<exists>x \<in> set (py_range (width d)).
                    p (x, y) \<noteq> 0 \<and> k = spec_idx d x y \<and> n = spec_bit y)"
proof -
  have "fst (for_loop (py_range (height d))
            (\<lambda>y. for_loop (py_range (width d))
               (\<lambda>x d'. if p (x, y) \<noteq> 0 then set_pixel d' x y 1 else (None, d')))
            (clear d)) = None
        \<and> same_shape (clear d) (snd (for_loop (py_range (height d))
            (\<lambda>y. for_loop (py_range (width d))
               (\<lambda>x d'. if p (x, y) \<noteq> 0 then set_pixel d' x y 1 else (None, d')))
            (clear d)))
        \<and> (\<forall>k n. bit (buffer (snd (for_loop (py_range (height d))
            (\<lambda>y. for_loop (py_range (width d))
               (\<lambda>x d'. if p (x, y) \<noteq> 0 then set_pixel d' x y 1 else (None, d')))
            (clear d))) ! k) n
          \<longleftrightarrow> bit (buffer (clear d) ! k) n
              \<or> (\<exists>y \<in> set (py_range (height d)). \<exists>x \<in> set (py_range (width d)).
                    p (x, y) \<noteq> 0 \<and> k = spec_idx d x y \<and> n = spec_bit y))"
  proof (rule for_loop_collects [where P = "same_shape (clear d)"
      and Q = "\<lambda>d k n. bit (buffer d ! k) n"
      and R = "\<lambda>y k n. \<exists>x \<in> set (py_range (width d)).
                    p (x, y) \<noteq> 0 \<and> k = spec_idx d x y \<and> n = spec_bit y"])
    fix y d'
    assume "y \<in> set (py_range (height d))" and s: "same_shape (clear d) d'"
    then have "0 \<le> y \<and> y < height d" by (simp add: py_range_mem)
    with assms show "fst (for_loop (py_range (width d))
                (\<lambda>x d'. if p (x, y) \<noteq> 0 then set_pixel d' x y 1 else (None, d')) d') = None
         \<and> same_shape (clear d)
              (snd (for_loop (py_range (width d))
                (\<lambda>x d'. if p (x, y) \<noteq> 0 then set_pixel d' x y 1 else (None, d')) d'))
         \<and> (\<forall>k n. bit (buffer (snd (for_loop (py_range (width d))
                (\<lambda>x d'. if p (x, y) \<noteq> 0 then set_pixel d' x y 1 else (None, d')) d')) ! k) n
               \<longleftrightarrow> bit (buffer d' ! k) n
                 \<or> (\<exists>x \<in> set (py_range (width d)).
                       p (x, y) \<noteq> 0 \<and> k = spec_idx d x y \<and> n = spec_bit y))"
      using s by (rule ingest_row_bits)
  qed (rule same_shape_refl)
  then show ?thesis by blast
qed

lemma py_range_iff: "i \<in> set (py_range n) \<longleftrightarrow> 0 \<le> i \<and> i < n"
proof
  assume "i \<in> set (py_range n)"
  then show "0 \<le> i \<and> i < n" by (rule py_range_mem)
next
  assume a: "0 \<le> i \<and> i < n"
  then have "nat i \<in> set [0 ..< nat n]" by simp
  then have "int (nat i) \<in> set (py_range n)" unfolding py_range_def by (simp only: set_map image_eqI)
  with a show "i \<in> set (py_range n)" by simp
qed

lemma pixel_position:
  fixes w x y :: int
  assumes "0 \<le> x" "x < w" "0 \<le> y"
  shows "((y div 8) * w + x) mod w = x" "((y div 8) * w + x) div w = y div 8"
  using assms by simp_all

lemma pixel_of_bit:
  fixes p :: "int \<times> int \<Rightarrow> int"
  assumes g: "valid_geometry d" and k: "int k < width d * pages d"
  shows "(\<exists>y \<in> set (py_range (height d)). \<exists>x \<in> set (py_range (width d)).
            p (x, y) \<noteq> 0 \<and> k = spec_idx d x y \<and> n = spec_bit y)
         \<longleftrightarrow> n < 8 \<and> p (int k mod width d, 8 * (int k div width d) + int n) \<noteq> 0"
proof
  assume "\<exists>y \<in> set (py_range (height d)). \<exists>x \<in> set (py_range (width d)).
            p (x, y) \<noteq> 0 \<and> k = spec_idx d x y \<and> n = spec_bit y"
  then obtain x y where y: "0 \<le> y" "y < height d" and x: "0 \<le> x" "x < width d"
    and pz: "p (x, y) \<noteq> 0" and kk: "k = spec_idx d x y" and nn: "n = spec_bit y"
    by (auto simp: py_range_iff)
  from x y have "0 \<le> (y div 8) * width d + x" by simp
  with kk have ik: "int k = (y div 8) * width d + x" by (simp add: spec_idx_def)
  have m: "int k mod width d = x" "int k div width d = y div 8"
    unfolding ik using x y(1) by (rule pixel_position)+
  from nn have inn: "int n = y mod 8" "n < 8" by (simp_all add: spec_bit_def)
  have "8 * (int k div width d) + int n = y" unfolding m inn by simp
  with m pz inn show "n < 8 \<and> p (int k mod width d, 8 * (int k div width d) + int n) \<noteq> 0"
    by simp
next
  assume a: "n < 8 \<and> p (int k mod width d, 8 * (int k div width d) + int n) \<noteq> 0"
  let ?x = "int k mod width d" and ?y = "8 * (int k div width d) + int n"
  from g have w: "0 < width d" and h: "height d = 8 * pages d"
    by (auto simp: valid_geometry_def)
  from w have x: "0 \<le> ?x" "?x < width d" by simp_all
  from w have q0: "0 \<le> int k div width d" by (simp add: pos_imp_zdiv_nonneg_iff)
  have "int k div width d < pages d"
  proof (rule ccontr)
    assume "\<not> int k div width d < pages d"
    then have "pages d \<le> int k div width d" by simp
    with w have "width d * pages d \<le> width d * (int k div width d)"
      by (intro mult_left_mono) simp_all
    moreover have "width d * (int k div width d) + int k mod width d = int k"
      by (rule mult_div_mod_eq)
    ultimately show False using k x(1) by linarith
  qed
  with a h q0 have y: "0 \<le> ?y" "?y < height d" by simp_all
  from a have yd: "?y div 8 = int k div width d" "?y mod 8 = int n" by simp_all
  have "spec_idx d ?x ?y = k" unfolding spec_idx_def yd by simp
  moreover have "spec_bit ?y = n" unfolding spec_bit_def yd by simp
  ultimately show "\<exists>y \<in> set (py_range (height d)). \<exists>x \<in> set (py_range (width d)).
            p (x, y) \<noteq> 0 \<and> k = spec_idx d x y \<and> n = spec_bit y"
    using a x y by (intro bexI [where x = ?y] bexI [where x = ?x]) (simp_all add: py_range_iff)
qed

lemma image_d_bits:
  assumes "valid_geometry d" and "k < length (buffer (snd (image_d convert resize d img)))"
  shows "bit (buffer (snd (image_d convert resize d img)) ! k) n
         \<longleftrightarrow> n < 8 \<and> im_pixels (ingested convert resize d img)
                        (int k mod width d, 8 * (int k div width d) + int n) \<noteq> 0"
proof -
  have len: "length (buffer (snd (image_d convert resize d img))) = nat (width d * pages d)"
    using image_d_shape [of d convert resize img] by (simp add: same_shape_def)
  with assms(2) have k: "k < nat (width d * pages d)" by simp
  then have ik: "int k < width d * pages d" by simp
  from k have z: "\<not> bit (buffer (clear d) ! k) n" by simp
  note ingest_bits [OF assms(1), of "im_pixels (ingested convert resize d img)",
      rule_format, of k n]
  then have "bit (buffer (snd (image_d convert resize d img)) ! k) n
      \<longleftrightarrow> (\<exists>y \<in> set (py_range (height d)). \<exists>x \<in> set (py_range (width d)).
            im_pixels (ingested convert resize d img) (x, y) \<noteq> 0
            \<and> k = spec_idx d x y \<and> n = spec_bit y)"
    unfolding image_d_ingested using z by blast
  also note pixel_of_bit [OF assms(1) ik, of "im_pixels (ingested convert resize d img)" n]
  finally show ?thesis .
qed

lemma image_d_pixel:
  assumes g: "valid_geometry d" and x: "0 \<le> x \<and> x < width d" and y: "0 \<le> y \<and> y < height d"
  shows "spec_idx d x y < length (buffer (snd (image_d convert resize d img)))"
    and "bit (buffer (snd (image_d convert resize d img)) ! spec_idx d x y) (spec_bit y)
         \<longleftrightarrow> im_pixels (ingested convert resize d img) (x, y) \<noteq> 0"
proof -
  have len: "length (buffer (snd (image_d convert resize d img))) = nat (width d * pages d)"
    using image_d_shape [of d convert resize img] by (simp add: same_shape_def)
  from g have h: "height d = 8 * pages d" by (auto simp: valid_geometry_def)
  from y h have "y < 8 * pages d" by simp
  with x y have b: "0 \<le> (y div 8) * width d + x" "(y div 8) * width d + x < width d * pages d"
    by (intro pixel_idx_bound; simp)+
  then show k: "spec_idx d x y < length (buffer (snd (image_d convert resize d img)))"
    unfolding len by (simp add: spec_idx_def)
  from b have ik: "int (spec_idx d x y) = (y div 8) * width d + x" by (simp add: spec_idx_def)
  have m: "int (spec_idx d x y) mod width d = x" "int (spec_idx d x y) div width d = y div 8"
    unfolding ik using x y by (intro pixel_position; simp)+
  have n: "int (spec_bit y) = y mod 8" "spec_bit y < 8" by (simp_all add: spec_bit_def)
  have "8 * (y div 8) + y mod 8 = y" by simp
  with image_d_bits [OF g k, of "spec_bit y"] show
    "bit (buffer (snd (image_d convert resize d img)) ! spec_idx d x y) (spec_bit y)
         \<longleftrightarrow> im_pixels (ingested convert resize d img) (x, y) \<noteq> 0"
    unfolding m n using n(2) by simp
qed

section \<open>Pixel writes\<close>

text \<open>
  Claim C1.  On a controller of the data model (height a positive multiple of 8, one
  page per 8 rows, buffer of \<open>width * pages\<close> bytes) and for every coordinate pair with
  \<open>0 \<le> x < width\<close> and \<open>0 \<le> y < height\<close>, whatever the buffer holds,
  \<^verbatim>\<open>set_pixel\<close> returns without an exception, changes nothing but the buffer, keeps
  its length, and the bits of the new buffer are those of the old one except bit
  \<open>y mod 8\<close> of the byte at index \<open>(y div 8) * width + x\<close>, which is set when the colour
  is 1 (any non-zero colour) and cleared when it is 0.
\<close>

theorem set_pixel_in_bounds:
  assumes "well_formed d" and "0 \<le> x" and "x < width d" and "0 \<le> y" and "y < height d"
  shows "fst (set_pixel d x y c) = None
         \<and> spec_idx d x y < length (buffer d)
         \<and> snd (set_pixel d x y c) = d\<lparr>buffer := buffer (snd (set_pixel d x y c))\<rparr>
         \<and> length (buffer (snd (set_pixel d x y c))) = length (buffer d)
         \<and> (\<forall>i n. i < length (buffer d) \<longrightarrow>
               bit (buffer (snd (set_pixel d x y c)) ! i) n =
                 (if i = spec_idx d x y \<and> n = spec_bit y then c \<noteq> 0
                  else bit (buffer d ! i) n))"
proof -
  from assms(1) have h: "height d = 8 * pages d" by (rule well_formed_height)
  from assms(1) have len: "int (length (buffer d)) = width d * pages d"
    by (simp add: well_formed_def)
  from assms(5) h have "y < 8 * pages d" by simp
  with assms(2-4) have b: "0 \<le> (y div 8) * width d + x" "(y div 8) * width d + x < width d * pages d"
    by (rule pixel_idx_bound)+
  from b len have lt: "(y div 8) * width d + x < int (length (buffer d))" by simp
  with b(1) have k: "spec_idx d x y < length (buffer d)" by (simp add: spec_idx_def)
  note eq = set_pixel_at [OF assms(2-5) lt, of c]
  show ?thesis
    using k by (auto simp: eq nth_list_update bit_or_iff bit_and_iff bit_not_iff bit_exp_iff)
qed

theorem set_pixel_in_bounds_witness:
  "well_formed default_device
   \<and> (0::int) \<le> 5 \<and> 5 < width default_device \<and> (0::int) \<le> 10 \<and> 10 < height default_device
   \<and> fst (set_pixel default_device 5 10 1) = None
   \<and> spec_idx default_device 5 10 = 69 \<and> spec_bit 10 = 2
   \<and> bit (buffer (snd (set_pixel default_device 5 10 1)) ! 69) 2
   \<and> \<not> bit (buffer (snd (set_pixel (fill default_device 1) 5 10 0)) ! 69) 2
   \<and> bit (buffer (snd (set_pixel (fill default_device 1) 5 10 0)) ! 69) 3
   \<and> \<not> bit (buffer (snd (set_pixel default_device 5 10 1)) ! 70) 2"
proof -
  let ?D = "default_device" and ?F = "fill default_device 1"
  have wf: "well_formed ?D" by (rule default_device_well_formed)
  have wfF: "well_formed ?F"
    using wf by (simp add: well_formed_def valid_geometry_def fill_def py_repeat_def)
  have b: "(0::int) \<le> 5" "5 < width ?D" "(0::int) \<le> 10" "10 < height ?D" by simp_all
  have bF: "(0::int) \<le> 5" "5 < width ?F" "(0::int) \<le> 10" "10 < height ?F"
    by (simp_all add: fill_def)
  have k: "spec_idx ?D 5 10 = 69" "spec_idx ?F 5 10 = 69" "spec_bit 10 = 2"
    by (simp_all add: spec_idx_def spec_bit_def fill_def)
  have F: "buffer ?F = replicate 256 0xFF" by (simp add: fill_def py_repeat_def)
  note on = set_pixel_in_bounds [OF wf b, of 1]
  note off = set_pixel_in_bounds [OF wfF bF, of 0]
  from on have on_bits: "\<forall>i n. i < length (buffer ?D) \<longrightarrow>
      bit (buffer (snd (set_pixel ?D 5 10 1)) ! i) n =
        (if i = spec_idx ?D 5 10 \<and> n = spec_bit 10 then (1::int) \<noteq> 0 else bit (buffer ?D ! i) n)"
    by (elim conjE)
  from off have off_bits: "\<forall>i n. i < length (buffer ?F) \<longrightarrow>
      bit (buffer (snd (set_pixel ?F 5 10 0)) ! i) n =
        (if i = spec_idx ?F 5 10 \<and> n = spec_bit 10 then (0::int) \<noteq> 0 else bit (buffer ?F ! i) n)"
    by (elim conjE)
  have "bit (255::int) 3" by (simp add: bit_iff_odd)
  with on wf b k F on_bits [rule_format, of 69 2] on_bits [rule_format, of 70 2]
    off_bits [rule_format, of 69 2] off_bits [rule_format, of 69 3]
  show ?thesis by simp
qed

text \<open>
  The hypothesis on the height is needed: \<^verbatim>\<open>__init__\<close> takes any height, and on a
  controller built with height 12 the rows 8 to 11 lie in a page the buffer does not
  have, so a write there raises \<^verbatim>\<open>IndexError\<close>.
\<close>

lemma set_pixel_partial_page:
  "set_pixel (SSD1315_init 1 0x3C 64 12 0) 0 10 1 = (Some IndexError, SSD1315_init 1 0x3C 64 12 0)"
  by (simp add: set_pixel_def py_index_def)

text \<open>
  Claim C5.  For every coordinate pair outside \<open>[0, width) \<times> [0, height)\<close> and every
  colour, on any controller, \<^verbatim>\<open>set_pixel\<close> returns without an exception and leaves
  the object, and so every byte of the buffer, as it was.
\<close>

theorem set_pixel_out_of_bounds:
  "\<not> (0 \<le> x \<and> x < width d \<and> 0 \<le> y \<and> y < height d) \<Longrightarrow> set_pixel d x y c = (None, d)"
  by (auto simp: set_pixel_def)

theorem set_pixel_out_of_bounds_witness:
  "\<not> (0 \<le> (-1::int) \<and> -1 < width default_device \<and> (0::int) \<le> 0 \<and> 0 < height default_device)
   \<and> set_pixel default_device (-1) 0 1 = (None, default_device)
   \<and> \<not> ((0::int) \<le> 64 \<and> 64 < width default_device \<and> (0::int) \<le> 0 \<and> 0 < height default_device)
   \<and> set_pixel default_device 64 0 1 = (None, default_device)
   \<and> \<not> ((0::int) \<le> 0 \<and> 0 < width default_device \<and> (0::int) \<le> 32 \<and> 32 < height default_device)
   \<and> set_pixel default_device 0 32 0 = (None, default_device)"
  using set_pixel_out_of_bounds [of "-1" default_device 0 1]
    set_pixel_out_of_bounds [of 64 default_device 0 1]
    set_pixel_out_of_bounds [of 0 default_device 32 0]
  by simp

section \<open>Filling the buffer\<close>

text \<open>
  Claim C6.  On a controller whose \<open>width * pages\<close> is not negative and whatever the
  buffer holds, \<^verbatim>\<open>fill(1)\<close> leaves a buffer of \<open>width * pages\<close> bytes, each 0xFF, and
  \<^verbatim>\<open>fill(0)\<close> a buffer of the same length, each byte 0x00.
\<close>

theorem fill_bytes:
  assumes "0 \<le> width d * pages d"
  shows "int (length (buffer (fill d 1))) = width d * pages d
         \<and> buffer (fill d 1) = replicate (nat (width d * pages d)) 0xFF
         \<and> (\<forall>b \<in> set (buffer (fill d 1)). b = 0xFF)
         \<and> int (length (buffer (fill d 0))) = width d * pages d
         \<and> buffer (fill d 0) = replicate (nat (width d * pages d)) 0x00
         \<and> (\<forall>b \<in> set (buffer (fill d 0)). b = 0x00)"
  using assms by (simp add: fill_def py_repeat_def)

theorem fill_bytes_witness:
  "0 \<le> width default_device * pages default_device
   \<and> buffer (fill default_device 1) = replicate 256 0xFF
   \<and> length (buffer (fill default_device 1)) = 256
   \<and> buffer (fill default_device 0) = replicate 256 0x00"
proof -
  have h: "0 \<le> width default_device * pages default_device" by simp
  have n: "nat (width default_device * pages default_device) = 256" by simp
  note f = fill_bytes [OF h]
  from f have f1: "buffer (fill default_device 1)
      = replicate (nat (width default_device * pages default_device)) 0xFF"
    by (elim conjE)
  from f have f0: "buffer (fill default_device 0)
      = replicate (nat (width default_device * pages default_device)) 0x00"
    by (elim conjE)
  have l: "length (buffer (fill default_device 1)) = 256"
    unfolding f1 n by simp
  from h f1 [unfolded n] l f0 [unfolded n] show ?thesis by (intro conjI)
qed

section \<open>Chunked data transfer\<close>

text \<open>
  Claim C3.  For every payload of length \<open>L\<close>, \<^verbatim>\<open>_data\<close> leaves the earlier writes of
  the bus as they are and adds exactly \<open>\<lceil>L / 32\<rceil> = (L + 31) div 32\<close> block writes;
  every one goes to the device address with the data prefix 0x40 and carries at most
  32 bytes, and the chunks sent, joined in the order sent, are the payload.
\<close>

theorem data_sends_chunks:
  "writes (bus (data d payload)) = writes (bus d) @ sent d (data d payload)
   \<and> sent d (data d payload) = map (WriteBlock (address d) 0x40) (chunks payload)
   \<and> length (sent d (data d payload)) = (length payload + 31) div 32
   \<and> list_all (\<lambda>c. length c \<le> 32) (chunks payload)
   \<and> concat (chunks payload) = payload
   \<and> data_payload (sent d (data d payload)) = payload"
proof -
  have s: "sent d (data d payload) = map (WriteBlock (address d) 0x40) (chunks payload)"
    by (rule sent_append) (rule data_writes)
  have p: "data_payload (map (WriteBlock a 0x40) cs) = concat cs" for a cs
    by (induction cs) simp_all
  show ?thesis
    by (simp add: s p data_writes chunks_length chunks_concat list_all_iff chunks_small)
qed

section \<open>Commit\<close>

text \<open>
  Claim C2.  For every state of the object, \<^verbatim>\<open>display\<close> leaves the earlier writes of
  the bus as they are and adds, in this order, the column-address command with the
  window 0 to \<open>width - 1\<close>, the page-address command with the window 0 to
  \<open>pages - 1\<close>, and the block writes of the whole buffer, whose data payload is the
  buffer; the buffer itself is not changed.  On a controller built with width 64,
  height 32 and rotation 0 (on any bus and address), \<^verbatim>\<open>set_pixel(0, 0, 1)\<close> followed
  by \<^verbatim>\<open>display\<close> transmits a payload of 256 bytes, the first 0x01 and the others 0x00.
\<close>

theorem display_sends_buffer:
  "writes (bus (display d)) = writes (bus d) @ sent d (display d)
   \<and> sent d (display d) =
       map (WriteByte (address d) 0x00) [SET_COLUMN_ADDR, 0, width d - 1]
       @ map (WriteByte (address d) 0x00) [SET_PAGE_ADDR, 0, pages d - 1]
       @ map (WriteBlock (address d) 0x40) (chunks (buffer d))
   \<and> data_payload (sent d (display d)) = buffer d
   \<and> buffer (display d) = buffer d
   \<and> fst (set_pixel (SSD1315_init b a 64 32 0) 0 0 1) = None
   \<and> data_payload (sent (snd (set_pixel (SSD1315_init b a 64 32 0) 0 0 1))
                         (display (snd (set_pixel (SSD1315_init b a 64 32 0) 0 0 1))))
       = 0x01 # replicate 255 0x00
   \<and> length (data_payload (sent (snd (set_pixel (SSD1315_init b a 64 32 0) 0 0 1))
                         (display (snd (set_pixel (SSD1315_init b a 64 32 0) 0 0 1))))) = 256"
proof -
  have s: "sent d (display d) =
       map (WriteByte (address d) 0x00) [0x21, 0, width d - 1, 0x22, 0, pages d - 1]
       @ map (WriteBlock (address d) 0x40) (chunks (buffer d))" for d
    by (rule sent_append) (rule display_writes)
  have p: "data_payload (sent d (display d)) = buffer d" for d
    unfolding s data_payload_append data_payload_bytes data_payload_blocks
    by (simp add: chunks_concat)
  let ?D = "SSD1315_init b a 64 32 0"
  have px: "set_pixel ?D 0 0 1 = (None, ?D\<lparr>buffer := (replicate 256 0)[0 := 1]\<rparr>)"
    by (subst set_pixel_at) (simp_all add: spec_idx_def spec_bit_def)
  have r: "(replicate 256 (0::int))[0 := 1] = 1 # replicate 255 0"
    by (simp add: numeral_eq_Suc)
  show ?thesis
    by (simp add: s px r display_writes opcode_defs data_payload_append data_payload_bytes
          data_payload_blocks chunks_concat)
qed

section \<open>Initialisation\<close>

text \<open>
  Claim C4.  The command bytes the constructor puts on the bus are the sixteen steps
  in their order: display off; clock divide 0x80; multiplex ratio \<open>height - 1\<close>;
  display offset 0; start line 0x40; charge pump 0x8D, 0x14; memory mode 0x20, 0x00;
  segment remap and scan direction, 0xA1 then 0xC8 when the rotation is 0 and 0xA0
  then 0xC0 otherwise (so also for 180); COM pins 0xDA with 0x02 when
  \<open>height \<le> 32\<close> and 0x12 otherwise; contrast 0x81 with 0xCF; precharge 0xF1; VCOMH
  0x40; resume 0xA4; normal display 0xA6; display on 0xAF; and the commit of the
  cleared buffer, whose payload is all zeros.
\<close>

theorem init_command_stream:
  "command_bytes (writes (bus (SSD1315_init b a w h r))) =
     [0xAE, 0xD5, 0x80, 0xA8, h - 1, 0xD3, 0x00, 0x40, 0x8D, 0x14, 0x20, 0x00]
     @ (if r = 0 then [0xA1, 0xC8] else [0xA0, 0xC0])
     @ [0xDA, if h \<le> 32 then 0x02 else 0x12, 0x81, 0xCF, 0xD9, 0xF1, 0xDB, 0x40,
        0xA4, 0xA6, 0xAF]
     @ [0x21, 0, w - 1, 0x22, 0, h div 8 - 1]
   \<and> data_payload (writes (bus (SSD1315_init b a w h r))) = replicate (nat (w * (h div 8))) 0
   \<and> buffer (SSD1315_init b a w h r) = replicate (nat (w * (h div 8))) 0
   \<and> take 17 (drop 12 (command_bytes (writes (bus (SSD1315_init b a w 32 0))))) =
       [0xA1, 0xC8, 0xDA, 0x02, 0x81, 0xCF, 0xD9, 0xF1, 0xDB, 0x40, 0xA4, 0xA6, 0xAF,
        0x21, 0, w - 1, 0x22]
   \<and> take 6 (drop 12 (command_bytes (writes (bus (SSD1315_init b a w 64 180))))) =
       [0xA0, 0xC0, 0xDA, 0x12, 0x81, 0xCF]"
proof -
  have c: "command_bytes (writes (bus (SSD1315_init b a w h r))) =
     [0xAE, 0xD5, 0x80, 0xA8, h - 1, 0xD3, 0x00, 0x40, 0x8D, 0x14, 0x20, 0x00]
     @ (if r = 0 then [0xA1, 0xC8] else [0xA0, 0xC0])
     @ [0xDA, if h \<le> 32 then 0x02 else 0x12, 0x81, 0xCF, 0xD9, 0xF1, 0xDB, 0x40,
        0xA4, 0xA6, 0xAF]
     @ [0x21, 0, w - 1, 0x22, 0, h div 8 - 1]" for w h r
    unfolding SSD1315_init_writes command_bytes_append command_bytes_bytes command_bytes_blocks
    by simp
  have p: "data_payload (writes (bus (SSD1315_init b a w h r))) = replicate (nat (w * (h div 8))) 0"
    unfolding SSD1315_init_writes data_payload_append data_payload_bytes data_payload_blocks
    by (simp add: chunks_concat)
  show ?thesis
    unfolding c p by simp
qed

section \<open>Construction\<close>

text \<open>
  Claim C8, as the code has it.  \<^verbatim>\<open>__init__\<close> does not look at the geometry: for
  every bus, address, width, height and rotation the call yields an object and never
  a \<^verbatim>\<open>ConfigurationError\<close>; the object has \<open>pages = height div 8\<close> (rounded
  down) and a zeroed buffer of \<open>width * pages\<close> bytes (none when that is negative),
  and the bus has received the initialisation sequence, beginning with display off.
\<close>

theorem constructor_accepts_any_geometry:
  "SSD1315 b a w h r = Inr (SSD1315_init b a w h r)
   \<and> SSD1315 b a w h r \<noteq> Inl ConfigurationError
   \<and> width (SSD1315_init b a w h r) = w
   \<and> height (SSD1315_init b a w h r) = h
   \<and> pages (SSD1315_init b a w h r) = h div 8
   \<and> buffer (SSD1315_init b a w h r) = replicate (nat (w * (h div 8))) 0
   \<and> take 1 (writes (bus (SSD1315_init b a w h r))) = [WriteByte a 0x00 DISPLAY_OFF]
   \<and> 31 \<le> length (writes (bus (SSD1315_init b a w h r)))"
  by (simp add: SSD1315_def SSD1315_init_writes opcode_defs)

text \<open>
  The claim as written fails: a height of 12 is not a multiple of 8 and a width of 0
  is not positive, and both constructions return an object after 33 and 31 writes on
  the bus.
\<close>

theorem constructor_rejects_counterexample:
  "(12::int) mod 8 \<noteq> 0
   \<and> SSD1315 1 0x3C 64 12 0 = Inr (SSD1315_init 1 0x3C 64 12 0)
   \<and> SSD1315 1 0x3C 64 12 0 \<noteq> Inl ConfigurationError
   \<and> length (writes (bus (SSD1315_init 1 0x3C 64 12 0))) = 33
   \<and> \<not> (0::int) < 0
   \<and> SSD1315 1 0x3C 0 32 0 = Inr (SSD1315_init 1 0x3C 0 32 0)
   \<and> SSD1315 1 0x3C 0 32 0 \<noteq> Inl ConfigurationError
   \<and> length (writes (bus (SSD1315_init 1 0x3C 0 32 0))) = 31"
  by (simp add: SSD1315_def SSD1315_init_writes chunks_length)

section \<open>The length of the buffer\<close>

text \<open>
  Claim C9.  The constructor builds a buffer of \<open>width * pages\<close> bytes (for every
  geometry in which that product is not negative), and from a state in which the
  buffer has that length each operation that writes the buffer, \<^verbatim>\<open>set_pixel\<close>,
  \<^verbatim>\<open>fill\<close>, \<^verbatim>\<open>clear\<close> and \<^verbatim>\<open>image\<close>, leaves the length, the width and the page
  count as they were, also when \<^verbatim>\<open>image\<close> ends with an exception.
\<close>

theorem buffer_length_preserved:
  "(0 \<le> w * (h div 8) \<longrightarrow>
      int (length (buffer (SSD1315_init b a w h r)))
        = width (SSD1315_init b a w h r) * pages (SSD1315_init b a w h r))
   \<and> (int (length (buffer d)) = width d * pages d \<longrightarrow>
        length (buffer (snd (set_pixel d x y c))) = length (buffer d)
      \<and> length (buffer (fill d c)) = length (buffer d)
      \<and> length (buffer (clear d)) = length (buffer d)
      \<and> length (buffer (snd (image_d convert resize d img))) = length (buffer d)
      \<and> width (snd (set_pixel d x y c)) * pages (snd (set_pixel d x y c)) = width d * pages d
      \<and> width (fill d c) * pages (fill d c) = width d * pages d
      \<and> width (clear d) * pages (clear d) = width d * pages d
      \<and> width (snd (image_d convert resize d img)) * pages (snd (image_d convert resize d img))
          = width d * pages d)"
proof -
  have sh: "width (snd (image_d convert resize d img)) = width d"
    "pages (snd (image_d convert resize d img)) = pages d"
    using image_d_shape [of d convert resize img] by (simp_all add: same_shape_def)
  have fl: "length (buffer (fill d c)) = nat (width d * pages d)"
    "width (fill d c) = width d" "pages (fill d c) = pages d"
    by (simp_all add: fill_def py_repeat_def)
  have cl: "length (buffer (clear d)) = nat (width d * pages d)"
    by simp
  have n: "nat (width d * pages d) = length (buffer d)"
    if "int (length (buffer d)) = width d * pages d"
    using that by linarith
  show ?thesis
    using n by (simp add: image_d_length sh fl cl)
qed

theorem buffer_length_preserved_witness:
  "(0::int) \<le> 64 * (32 div 8)
   \<and> length (buffer default_device) = 256
   \<and> int (length (buffer default_device)) = width default_device * pages default_device
   \<and> length (buffer (snd (set_pixel default_device 5 10 1))) = 256
   \<and> length (buffer (fill default_device 1)) = 256
   \<and> length (buffer (clear default_device)) = 256
   \<and> length (buffer (snd (image_d to_one_bit to_size default_device
                             (draw_point (Canvas_init default_device) (32, 16) 1)))) = 256"
  using buffer_length_preserved [where w = 64 and h = 32 and b = 1 and a = "0x3C" and r = 0
      and d = default_device and x = 5 and y = 10 and c = 1 and convert = to_one_bit
      and resize = to_size and img = "draw_point (Canvas_init default_device) (32, 16) 1"]
  by (simp add: default_device_def)

section \<open>Leaving a Canvas scope\<close>

text \<open>
  Claim C7.  Take a scope \<^verbatim>\<open>with canvas(device) as draw: body\<close> whose body ends,
  normally or with an exception \<open>exc\<close>, with the surface \<open>img\<close> and the device \<open>d1\<close>, a
  device with the geometry of the data model.  Then leaving the scope ingests the
  surface once, without an exception, and commits once: the device after the scope is
  \<^verbatim>\<open>display\<close> applied to the result of \<^verbatim>\<open>image\<close>, and the writes added to the bus are
  those of one commit, the two addressing commands followed by the blocks of the
  buffer.  That buffer has \<open>width * pages\<close> bytes and holds the surface: bit \<open>n\<close> of
  byte \<open>k\<close> is set exactly when \<open>n < 8\<close> and the pixel in column \<open>k mod width\<close> and
  row \<open>8 * (k div width) + n\<close> of the surface is not zero; so for every pixel
  \<open>(x, y)\<close> of the surface, bit \<open>y mod 8\<close> of byte \<open>(y div 8) * width + x\<close> is set
  exactly when the pixel is not zero.  None of this depends on \<open>exc\<close>.
\<close>

theorem canvas_exit_commits_once:
  assumes "body (Canvas_init d, d) = (exc, img, d1)" and "valid_geometry d1"
  shows "fst (image_d convert resize d1 img) = None
         \<and> Canvas_exit convert resize d1 img
             = (Inr False, display (snd (image_d convert resize d1 img)))
         \<and> snd (with_canvas convert resize d body)
             = display (snd (image_d convert resize d1 img))
         \<and> sent d1 (snd (with_canvas convert resize d body)) =
             map (WriteByte (address d1) 0x00) [SET_COLUMN_ADDR, 0, width d1 - 1]
             @ map (WriteByte (address d1) 0x00) [SET_PAGE_ADDR, 0, pages d1 - 1]
             @ map (WriteBlock (address d1) 0x40)
                 (chunks (buffer (snd (image_d convert resize d1 img))))
         \<and> data_payload (sent d1 (snd (with_canvas convert resize d body)))
             = buffer (snd (with_canvas convert resize d body))
         \<and> int (length (buffer (snd (with_canvas convert resize d body))))
             = width d1 * pages d1
         \<and> (\<forall>k n. k < length (buffer (snd (with_canvas convert resize d body))) \<longrightarrow>
               bit (buffer (snd (with_canvas convert resize d body)) ! k) n =
                 (n < 8 \<and> im_pixels (ingested convert resize d1 img)
                            (int k mod width d1, 8 * (int k div width d1) + int n) \<noteq> 0))
         \<and> (\<forall>x y. 0 \<le> x \<and> x < width d1 \<and> 0 \<le> y \<and> y < height d1 \<longrightarrow>
               spec_idx d1 x y < length (buffer (snd (with_canvas convert resize d body)))
               \<and> bit (buffer (snd (with_canvas convert resize d body)) ! spec_idx d1 x y)
                     (spec_bit y)
                   = (im_pixels (ingested convert resize d1 img) (x, y) \<noteq> 0))"
proof -
  let ?I = "snd (image_d convert resize d1 img)"
  have sh: "same_shape (clear d1) ?I" by (rule image_d_shape)
  then have f: "bus ?I = bus d1" "address ?I = address d1" "width ?I = width d1"
    "pages ?I = pages d1"
    by (simp_all add: same_shape_def)
  from sh valid_geometry_size [OF assms(2)]
  have len: "int (length (buffer ?I)) = width d1 * pages d1"
    by (simp add: same_shape_def)
  have w: "with_canvas convert resize d body = (exc, display ?I)"
    using assms by (rule with_canvas_valid)
  have s: "sent d1 (display ?I) =
      map (WriteByte (address d1) 0x00) [0x21, 0, width d1 - 1, 0x22, 0, pages d1 - 1]
      @ map (WriteBlock (address d1) 0x40) (chunks (buffer ?I))"
    by (rule sent_append) (simp add: display_writes f)
  have first: "fst (image_d convert resize d1 img) = None
         \<and> Canvas_exit convert resize d1 img = (Inr False, display ?I)
         \<and> snd (with_canvas convert resize d body) = display ?I
         \<and> sent d1 (snd (with_canvas convert resize d body)) =
             map (WriteByte (address d1) 0x00) [SET_COLUMN_ADDR, 0, width d1 - 1]
             @ map (WriteByte (address d1) 0x00) [SET_PAGE_ADDR, 0, pages d1 - 1]
             @ map (WriteBlock (address d1) 0x40) (chunks (buffer ?I))
         \<and> data_payload (sent d1 (snd (with_canvas convert resize d body)))
             = buffer (snd (with_canvas convert resize d body))"
    unfolding w
    by (simp add: s image_d_completes [OF assms(2)] Canvas_exit_valid [OF assms(2)] opcode_defs
        data_payload_append data_payload_bytes data_payload_blocks chunks_concat)
  have b: "buffer (snd (with_canvas convert resize d body)) = buffer ?I"
    unfolding w by simp
  have bits: "\<forall>k n. k < length (buffer ?I) \<longrightarrow>
               bit (buffer ?I ! k) n =
                 (n < 8 \<and> im_pixels (ingested convert resize d1 img)
                            (int k mod width d1, 8 * (int k div width d1) + int n) \<noteq> 0)"
    using image_d_bits [OF assms(2)] by blast
  have pix: "\<forall>x y. 0 \<le> x \<and> x < width d1 \<and> 0 \<le> y \<and> y < height d1 \<longrightarrow>
               spec_idx d1 x y < length (buffer ?I)
               \<and> bit (buffer ?I ! spec_idx d1 x y) (spec_bit y)
                   = (im_pixels (ingested convert resize d1 img) (x, y) \<noteq> 0)"
    using image_d_pixel [OF assms(2)] by blast
  from first len bits pix show ?thesis
    unfolding b by (intro conjI) (elim conjE, assumption)+
qed

theorem canvas_exit_commits_once_witness:
  "body_raises (Canvas_init default_device, default_device)
     = (Some (CallerError ''mid-draw''),
        draw_point (Canvas_init default_device) (32, 16) 1, default_device)
   \<and> valid_geometry default_device
   \<and> snd (with_canvas to_one_bit to_size default_device body_raises)
       = display (snd (image_d to_one_bit to_size default_device
                         (draw_point (Canvas_init default_device) (32, 16) 1)))
   \<and> length (data_payload (sent default_device
                 (snd (with_canvas to_one_bit to_size default_device body_raises)))) = 256
   \<and> spec_idx default_device 32 16 = 160 \<and> spec_bit 16 = 0
   \<and> buffer (snd (with_canvas to_one_bit to_size default_device body_raises)) ! 160 = 0x01
   \<and> buffer (snd (with_canvas to_one_bit to_size default_device body_raises)) ! 159 = 0x00
   \<and> data_payload (sent default_device
         (snd (with_canvas to_one_bit to_size default_device body_raises))) ! 160 = 0x01
   \<and> body_point (Canvas_init default_device, default_device)
     = (None, draw_point (Canvas_init default_device) (32, 16) 1, default_device)
   \<and> snd (with_canvas to_one_bit to_size default_device body_point)
       = display (snd (image_d to_one_bit to_size default_device
                         (draw_point (Canvas_init default_device) (32, 16) 1)))
   \<and> buffer (snd (with_canvas to_one_bit to_size default_device body_point)) ! 160 = 0x01"
proof -
  let ?img = "draw_point (Canvas_init default_device) (32, 16) 1"
  let ?R = "snd (with_canvas to_one_bit to_size default_device body_raises)"
  let ?P = "snd (with_canvas to_one_bit to_size default_device body_point)"
  have b1: "body_raises (Canvas_init default_device, default_device)
      = (Some (CallerError ''mid-draw''), ?img, default_device)"
    by (simp add: body_raises_def)
  have b2: "body_point (Canvas_init default_device, default_device)
      = (None, ?img, default_device)"
    by (simp add: body_point_def)
  have g: "valid_geometry default_device"
    using default_device_well_formed by (simp add: well_formed_def)
  have px: "im_pixels (ingested to_one_bit to_size default_device ?img) (x, y) \<noteq> 0
      \<longleftrightarrow> x = 32 \<and> y = 16" for x y
    by (simp add: ingested_def draw_point_def Canvas_init_def Image_new_def)
  note r = canvas_exit_commits_once [where body = body_raises and convert = to_one_bit
        and resize = to_size, OF b1 g]
  note q = canvas_exit_commits_once [where body = body_point and convert = to_one_bit
        and resize = to_size, OF b2 g]
  from r have r1: "?R = display (snd (image_d to_one_bit to_size default_device ?img))"
    by (elim conjE)
  from r have r2: "data_payload (sent default_device ?R) = buffer ?R"
    by (elim conjE)
  from r have rl: "int (length (buffer ?R)) = width default_device * pages default_device"
    by (elim conjE)
  from r have rb: "\<forall>k n. k < length (buffer ?R) \<longrightarrow>
      bit (buffer ?R ! k) n =
        (n < 8 \<and> im_pixels (ingested to_one_bit to_size default_device ?img)
           (int k mod width default_device, 8 * (int k div width default_device) + int n) \<noteq> 0)"
    by (elim conjE)
  from q have q1: "?P = display (snd (image_d to_one_bit to_size default_device ?img))"
    by (elim conjE)
  from rl have l: "length (buffer ?R) = 256" by simp
  have r3: "length (data_payload (sent default_device ?R)) = 256"
    unfolding r2 by (rule l)
  have "bit (buffer ?R ! 160) n = bit (1::int) n" for n
    using rb [rule_format, of 160 n] l by (auto simp: px bit_1_iff)
  then have v160: "buffer ?R ! 160 = 0x01" by (rule bit_eqI)
  have "bit (buffer ?R ! 159) n = bit (0::int) n" for n
    using rb [rule_format, of 159 n] l by (simp add: px)
  then have v159: "buffer ?R ! 159 = 0x00" by (rule bit_eqI)
  have p160: "data_payload (sent default_device ?R) ! 160 = 0x01"
    unfolding r2 by (rule v160)
  have vP: "buffer ?P ! 160 = 0x01"
    using v160 unfolding q1 r1 .
  have k: "spec_idx default_device 32 16 = 160" "spec_bit 16 = 0"
    by (simp_all add: spec_idx_def spec_bit_def)
  from b1 g r1 r3 k v160 v159 p160 b2 q1 vP show ?thesis by (intro conjI)
qed

text \<open>
  Claim C10.  When the body of the scope raises \<open>e\<close>, the scope never ends without an
  exception; and when the device has the geometry of the data model, the caller gets
  the same \<open>e\<close>, after the surface has been ingested and committed: \<^verbatim>\<open>__exit__\<close>
  answers \<^verbatim>\<open>False\<close>.
\<close>

theorem canvas_exit_propagates:
  assumes "body (Canvas_init d, d) = (Some e, img, d1)"
  shows "fst (with_canvas convert resize d body) \<noteq> None
         \<and> (valid_geometry d1 \<longrightarrow>
              with_canvas convert resize d body
                = (Some e, display (snd (image_d convert resize d1 img)))
              \<and> fst (Canvas_exit convert resize d1 img) = Inr False)"
proof -
  have "fst (with_canvas convert resize d body) \<noteq> None"
  proof (cases "Canvas_exit convert resize d1 img")
    case (Pair res d2)
    have "res = Inr False \<or> (\<exists>e'. res = Inl e')"
      using Pair by (auto simp: Canvas_exit_def split: prod.splits option.splits)
    with assms Pair show ?thesis
      by (auto simp: with_canvas_def)
  qed
  moreover have "with_canvas convert resize d body
        = (Some e, display (snd (image_d convert resize d1 img)))" if "valid_geometry d1"
    using assms that by (rule with_canvas_valid)
  ultimately show ?thesis
    by (simp add: Canvas_exit_valid)
qed

theorem canvas_exit_propagates_witness:
  "body_raises (Canvas_init default_device, default_device)
     = (Some (CallerError ''mid-draw''),
        draw_point (Canvas_init default_device) (32, 16) 1, default_device)
   \<and> valid_geometry default_device
   \<and> fst (with_canvas to_one_bit to_size default_device body_raises)
       = Some (CallerError ''mid-draw'')"
proof -
  have b: "body_raises (Canvas_init default_device, default_device)
      = (Some (CallerError ''mid-draw''),
         draw_point (Canvas_init default_device) (32, 16) 1, default_device)"
    by (simp add: body_raises_def)
  have g: "valid_geometry default_device"
    using default_device_well_formed by (simp add: well_formed_def)
  from canvas_exit_propagates [where body = body_raises and convert = to_one_bit
        and resize = to_size, OF b] b g
  show ?thesis by simp
qed

end
